theory Spec2Isabelle
  imports Main
begin

section \<open>pgmigrate: migrations and their validation\<close>

text \<open>
  The Go struct \<^verbatim>\<open>Migration{ID int; Description string; SQL string}\<close>. Go compares
  struct values field by field, which is the equality of the record. The field \<open>ID\<close> is a
  Go \<^verbatim>\<open>int\<close>; the only arithmetic of the source on it is the comparison with \<open>i+1\<close>
  for an index \<open>i\<close> below the length of a slice, which cannot overflow, so the unbounded
  integers are used and every statement below holds in particular for the machine range.
  Go strings are byte sequences: \<open>string\<close> (a list of \<open>char\<close>, each one byte).
\<close>

record Migration =
  ID :: int
  Description :: string
  SQL :: string

type_synonym Migrations = "Migration list"

text \<open>The errors of \<^verbatim>\<open>Migration.Valid\<close>, one constructor for each \<^verbatim>\<open>fmt.Errorf\<close>.\<close>

datatype migration_error =
    InvalidID int          \<comment> \<open>\<^verbatim>\<open>invalid id: %d\<close>\<close>
  | MissingDescription     \<comment> \<open>\<^verbatim>\<open>missing description\<close>\<close>
  | MissingSQL             \<comment> \<open>\<^verbatim>\<open>missing sql\<close>\<close>

text \<open>
  An error of the database driver or of the engine. The package \<^verbatim>\<open>database/sql\<close> and the
  server are not part of the repository; their errors are opaque values that the source only
  passes on or wraps.
\<close>

datatype db_error =
    UndefinedTable string  \<comment> \<open>the relation named in a statement does not exist\<close>
  | TxDone                 \<comment> \<open>\<^verbatim>\<open>sql.ErrTxDone\<close>: the transaction was committed or rolled back before\<close>
  | EngineError string     \<comment> \<open>any other failure, with its message\<close>

text \<open>The errors the package returns, one constructor for each place that builds one.\<close>

datatype error =
    UnexpectedMigrationID int int            \<comment> \<open>\<^verbatim>\<open>unexpected migration id: got=%d want=%d\<close>\<close>
  | InvalidMigration int migration_error     \<comment> \<open>\<^verbatim>\<open>invalid migration %d: %s\<close>\<close>
  | UnknownMigration int                     \<comment> \<open>\<^verbatim>\<open>unknown migration %d in db\<close>\<close>
  | ModifiedMigration int                    \<comment> \<open>\<^verbatim>\<open>modified migration %d detected\<close>\<close>
  | MigrationFailed int string db_error      \<comment> \<open>\<^verbatim>\<open>%d %s: %s\<close> in \<^verbatim>\<open>applyMigrations\<close>\<close>
  | DriverError db_error                     \<comment> \<open>an error of the driver returned as it is\<close>

text \<open>\<^verbatim>\<open>func (m *Migration) Valid() error\<close>; \<open>None\<close> is Go's \<^verbatim>\<open>nil\<close>.\<close>

definition Migration_Valid :: "Migration \<Rightarrow> migration_error option" where
  "Migration_Valid m =
     (if ID m < 1 then Some (InvalidID (ID m))
      else if Description m = [] then Some MissingDescription
      else if SQL m = [] then Some MissingSQL
      else None)"

text \<open>
  \<^verbatim>\<open>func (m Migrations) Valid() error\<close>. The loop \<^verbatim>\<open>for i := 0; i < len(m); i++\<close> is the
  recursion over the elements from position \<open>i\<close> on; the id is compared with \<open>i+1\<close> before
  the element's own check, as in the source. The slice is read as it is given: the method
  does not sort.
\<close>

fun Valid_from :: "nat \<Rightarrow> Migrations \<Rightarrow> error option" where
  "Valid_from i [] = None"
| "Valid_from i (m # rest) =
     (if ID m \<noteq> int i + 1 then Some (UnexpectedMigrationID (ID m) (int i + 1))
      else (case Migration_Valid m of
              Some err \<Rightarrow> Some (InvalidMigration (ID m) err)
            | None \<Rightarrow> Valid_from (Suc i) rest))"

definition Migrations_Valid :: "Migrations \<Rightarrow> error option" where
  "Migrations_Valid m = Valid_from 0 m"

text \<open>
  \<^verbatim>\<open>sort.Sort(ms)\<close> with \<^verbatim>\<open>Less(i, j) = m[i].ID < m[j].ID\<close>, as \<^verbatim>\<open>LoadMigrations\<close> calls
  it: an ascending sort by id. (Go's sort is not stable; the insertion sort of the library
  is, and the two agree on the list of ids and wherever the ids are distinct.)
\<close>

definition sort_by_id :: "Migrations \<Rightarrow> Migrations" where
  "sort_by_id ms = sort_key ID ms"

text \<open>
  The condition of the specification's data model, in its words: the sequence sorted by id
  has \<open>id[i] = i+1\<close> at every position \<open>i\<close>.
\<close>

definition spec_sorted_dense :: "Migrations \<Rightarrow> bool" where
  "spec_sorted_dense ms = (map ID (sort_by_id ms) = map (\<lambda>i. int i + 1) [0..<length ms])"

text \<open>The same condition on the sequence as it is presented, without sorting.\<close>

definition dense_as_given :: "Migrations \<Rightarrow> bool" where
  "dense_as_given ms = (map ID ms = map (\<lambda>i. int i + 1) [0..<length ms])"

section \<open>Quoting of identifiers\<close>

text \<open>
  \<^verbatim>\<open>strings.IndexRune(s, r)\<close> for a rune below \<^verbatim>\<open>utf8.RuneSelf\<close> is \<^verbatim>\<open>strings.IndexByte\<close>:
  the index of the first byte equal to \<open>b\<close>, or \<open>-1\<close>.
\<close>

fun IndexByte :: "string \<Rightarrow> char \<Rightarrow> int" where
  "IndexByte [] b = - 1"
| "IndexByte (x # xs) b =
     (if x = b then 0
      else (let r = IndexByte xs b in if r < 0 then - 1 else r + 1))"

text \<open>
  \<^verbatim>\<open>strings.Replace(s, old, new, -1)\<close> for a one-byte \<open>old\<close>: every occurrence of the byte
  is replaced, from left to right.
\<close>

fun Replace :: "string \<Rightarrow> char \<Rightarrow> string \<Rightarrow> string" where
  "Replace [] old new = []"
| "Replace (x # xs) old new = (if x = old then new @ Replace xs old new else x # Replace xs old new)"

definition NUL :: char where
  "NUL = CHR 0x00"

definition dquote :: char where
  "dquote = CHR 0x22"

text \<open>\<^verbatim>\<open>func quoteIdentifier(name string) string\<close>.\<close>

definition quoteIdentifier :: "string \<Rightarrow> string" where
  "quoteIdentifier name =
     (let end = IndexByte name NUL;
          name' = (if end > - 1 then take (nat end) name else name)
      in [dquote] @ Replace name' dquote [dquote, dquote] @ [dquote])"

text \<open>
  The reading of a quoted identifier under the engine's convention, for comparison with
  \<open>quoteIdentifier\<close>: after the opening quote, two quotes in a row stand for one quote
  character, a single quote closes the identifier, and a NUL byte cannot occur. The result
  is the identifier denoted and the input left after the closing quote; \<open>None\<close> when the
  text is not a quoted identifier.
\<close>

fun read_quoted_body :: "string \<Rightarrow> (string \<times> string) option" where
  "read_quoted_body [] = None"
| "read_quoted_body (x # xs) =
     (if x = dquote then
        (case xs of
           [] \<Rightarrow> Some ([], [])
         | y # ys \<Rightarrow>
             if y = dquote then map_option (\<lambda>(n, r). (dquote # n, r)) (read_quoted_body ys)
             else Some ([], xs))
      else if x = NUL then None
      else map_option (\<lambda>(n, r). (x # n, r)) (read_quoted_body xs))"

definition read_quoted_identifier :: "string \<Rightarrow> (string \<times> string) option" where
  "read_quoted_identifier s =
     (case s of [] \<Rightarrow> None | x # xs \<Rightarrow> if x = dquote then read_quoted_body xs else None)"

section \<open>The database\<close>

text \<open>
  \<^verbatim>\<open>Config\<close> and \<^verbatim>\<open>DefaultConfig\<close>; \<^verbatim>\<open>func (c *Config) table() string\<close>.
\<close>

record Config =
  Schema :: string
  Table :: string

definition DefaultConfig :: Config where
  "DefaultConfig = \<lparr>Schema = ''migrations'', Table = ''migrations''\<rparr>"

definition table :: "Config \<Rightarrow> string" where
  "table c = quoteIdentifier (Schema c) @ ''.'' @ quoteIdentifier (Table c)"

text \<open>The three statements the package builds itself, as the text passed to the driver.\<close>

definition init_sql :: "Config \<Rightarrow> string" where
  "init_sql c =
     [CHR 0x0A] @ ''CREATE SCHEMA IF NOT EXISTS '' @ quoteIdentifier (Schema c) @ '';'' @ [CHR 0x0A]
     @ ''CREATE TABLE IF NOT EXISTS '' @ table c @ '' ('' @ [CHR 0x0A]
     @ ''  id int NOT NULL,'' @ [CHR 0x0A]
     @ [CHR 0x09] @ ''description text NOT NULL,'' @ [CHR 0x0A]
     @ [CHR 0x09] @ ''sql text NOT NULL,'' @ [CHR 0x0A]
     @ [CHR 0x09] @ ''duration interval NOT NULL,'' @ [CHR 0x0A]
     @ ''  created timestamp without time zone DEFAULT (now() AT TIME ZONE ''
     @ [CHR 0x27] @ ''UTC'' @ [CHR 0x27] @ '') NOT NULL'' @ [CHR 0x0A]
     @ '');'' @ [CHR 0x0A]"

definition select_sql :: "Config \<Rightarrow> string" where
  "select_sql c = ''SELECT id, description, sql FROM '' @ table c @ '' ORDER BY id ASC''"

definition insert_sql :: "Config \<Rightarrow> string" where
  "insert_sql c =
     ''INSERT INTO '' @ table c @ '' (id, description, sql, duration) VALUES ($1, $2, $3, $4)''"

text \<open>
  A row of the bookkeeping table, with the columns of the \<^verbatim>\<open>CREATE TABLE\<close> statement. The
  duration (a float of seconds in the source) and the timestamp are values the clock of the
  environment supplies; no operation of the package reads them back, and they are kept as
  natural numbers.
\<close>

record bookkeeping_row =
  row_id :: int
  row_description :: string
  row_sql :: string
  row_duration :: nat
  row_created :: nat

text \<open>
  \<^verbatim>\<open>rows.Scan(&dbM.ID, &dbM.Description, &dbM.SQL)\<close>: the migration a row is read back as.
\<close>

definition row_migration :: "bookkeeping_row \<Rightarrow> Migration" where
  "row_migration r = \<lparr>ID = row_id r, Description = row_description r, SQL = row_sql r\<rparr>"

text \<open>
  A state of the database: the objects that migration statements create and change, of a
  type \<open>'s\<close> left open, and the bookkeeping tables by their quoted, schema-qualified name
  (\<open>None\<close>: the table does not exist), each with its rows in the order of insertion.
\<close>

record 's database =
  objects :: 's
  tables :: "string \<Rightarrow> bookkeeping_row list option"

definition rows_of :: "Config \<Rightarrow> 's database \<Rightarrow> bookkeeping_row list" where
  "rows_of c w = (case tables w (table c) of None \<Rightarrow> [] | Some rows \<Rightarrow> rows)"

text \<open>The calls of \<^verbatim>\<open>database/sql\<close> that reach the server, and a call with its outcome.\<close>

datatype call =
    Begin                                    \<comment> \<open>\<^verbatim>\<open>db.Begin()\<close>\<close>
  | Exec string                              \<comment> \<open>\<^verbatim>\<open>tx.Exec(text)\<close>\<close>
  | ExecInsert string int string string nat  \<comment> \<open>\<^verbatim>\<open>tx.Exec(text, id, description, sql, duration)\<close>\<close>
  | Query string                             \<comment> \<open>\<^verbatim>\<open>tx.Query(text)\<close>\<close>
  | Commit                                   \<comment> \<open>\<^verbatim>\<open>tx.Commit()\<close>\<close>
  | Rollback                                 \<comment> \<open>\<^verbatim>\<open>tx.Rollback()\<close>\<close>

type_synonym event = "call \<times> db_error option"

text \<open>
  The environment, which is not code of the repository, is a parameter of the model:
  \<^item> \<open>fault\<close>: whether the driver or the server fails a call of the package in a state
    (connection loss, missing privilege, a malformed identifier, ...);
  \<^item> \<open>next_fault\<close>, \<open>scan_fault\<close>: whether \<^verbatim>\<open>rows.Next\<close> or \<^verbatim>\<open>rows.Scan\<close> fails at the
    \<open>n\<close>-th row of a result;
  \<^item> \<open>statement\<close>: what executing the text of a migration does to a state, or the error
    it ends with; nothing is assumed about it;
  \<^item> \<open>elapsed\<close> and \<open>clock\<close>: the time \<^verbatim>\<open>time.Since\<close> measures for a statement and the
    server's \<^verbatim>\<open>now()\<close>.
\<close>

record 's engine =
  fault :: "call \<Rightarrow> 's database \<Rightarrow> db_error option"
  next_fault :: "nat \<Rightarrow> 's database \<Rightarrow> db_error option"
  scan_fault :: "nat \<Rightarrow> 's database \<Rightarrow> db_error option"
  statement :: "string \<Rightarrow> 's database \<Rightarrow> db_error + 's database"
  elapsed :: "string \<Rightarrow> 's database \<Rightarrow> nat"
  clock :: "'s database \<Rightarrow> nat"

text \<open>
  What a call of \<^verbatim>\<open>Migrate\<close> sees and changes: the committed state of the database, the
  transaction of this invocation (\<open>None\<close> before \<^verbatim>\<open>Begin\<close> and after \<^verbatim>\<open>Commit\<close> or
  \<^verbatim>\<open>Rollback\<close>; otherwise the state as the transaction sees it, invisible to others until
  the commit), and the calls made so far with their outcomes, oldest first.
\<close>

record 's session =
  committed :: "'s database"
  tx :: "'s database option"
  calls :: "event list"

definition record_call :: "call \<Rightarrow> db_error option \<Rightarrow> 's session \<Rightarrow> 's session" where
  "record_call cl outcome s = s\<lparr>calls := calls s @ [(cl, outcome)]\<rparr>"

text \<open>\<^verbatim>\<open>db.Begin()\<close>: a new transaction that starts from the committed state.\<close>

definition db_Begin :: "'s engine \<Rightarrow> 's session \<Rightarrow> db_error option \<times> 's session" where
  "db_Begin eng s =
     (case fault eng Begin (committed s) of
        Some err \<Rightarrow> (Some err, record_call Begin (Some err) s)
      | None \<Rightarrow> (None, record_call Begin None (s\<lparr>tx := Some (committed s)\<rparr>)))"

text \<open>
  \<^verbatim>\<open>tx.Exec\<close>: the effect \<open>f\<close> of the statement on the state of the transaction. A finished
  transaction answers \<^verbatim>\<open>sql.ErrTxDone\<close>; a failed statement changes nothing.
\<close>

definition tx_Exec ::
  "call \<Rightarrow> ('s database \<Rightarrow> db_error + 's database) \<Rightarrow> 's session \<Rightarrow> db_error option \<times> 's session" where
  "tx_Exec cl f s =
     (case tx s of
        None \<Rightarrow> (Some TxDone, record_call cl (Some TxDone) s)
      | Some w \<Rightarrow>
          (case f w of
             Inl err \<Rightarrow> (Some err, record_call cl (Some err) s)
           | Inr w' \<Rightarrow> (None, record_call cl None (s\<lparr>tx := Some w'\<rparr>))))"

text \<open>
  \<^verbatim>\<open>tx.Commit()\<close>: the state of the transaction becomes the committed state; when the commit
  fails nothing of the transaction is durable. Either way the transaction is finished.
\<close>

definition tx_Commit :: "'s engine \<Rightarrow> 's session \<Rightarrow> db_error option \<times> 's session" where
  "tx_Commit eng s =
     (case tx s of
        None \<Rightarrow> (Some TxDone, record_call Commit (Some TxDone) s)
      | Some w \<Rightarrow>
          (case fault eng Commit w of
             Some err \<Rightarrow> (Some err, record_call Commit (Some err) (s\<lparr>tx := None\<rparr>))
           | None \<Rightarrow> (None, record_call Commit None (s\<lparr>committed := w, tx := None\<rparr>))))"

text \<open>
  \<^verbatim>\<open>tx.Rollback()\<close>, whose result the source ignores: the state of an open transaction is
  dropped; after a commit the call answers \<^verbatim>\<open>sql.ErrTxDone\<close> and does nothing.
\<close>

definition tx_Rollback :: "'s session \<Rightarrow> 's session" where
  "tx_Rollback s =
     (case tx s of
        None \<Rightarrow> record_call Rollback (Some TxDone) s
      | Some w \<Rightarrow> record_call Rollback None (s\<lparr>tx := None\<rparr>))"

text \<open>
  The effect of the statement of \<^verbatim>\<open>init\<close>: \<^verbatim>\<open>CREATE ... IF NOT EXISTS\<close> leaves an existing
  table as it is and creates a missing one without rows.
\<close>

definition create_if_absent :: "Config \<Rightarrow> 's database \<Rightarrow> 's database" where
  "create_if_absent c w =
     (case tables w (table c) of
        None \<Rightarrow> w\<lparr>tables := (tables w)(table c := Some [])\<rparr>
      | Some rows \<Rightarrow> w)"

definition init_effect :: "'s engine \<Rightarrow> Config \<Rightarrow> 's database \<Rightarrow> db_error + 's database" where
  "init_effect eng c w =
     (case fault eng (Exec (init_sql c)) w of
        Some err \<Rightarrow> Inl err
      | None \<Rightarrow> Inr (create_if_absent c w))"

text \<open>\<^verbatim>\<open>func (c *Config) init(tx *sql.Tx) error\<close>.\<close>

definition init :: "'s engine \<Rightarrow> Config \<Rightarrow> 's session \<Rightarrow> db_error option \<times> 's session" where
  "init eng c s = tx_Exec (Exec (init_sql c)) (init_effect eng c) s"

text \<open>
  \<^verbatim>\<open>tx.Query\<close> of the \<^verbatim>\<open>SELECT ... ORDER BY id ASC\<close>: the rows of the table in ascending
  order of id (rows of equal id in the order of insertion).
\<close>

definition tx_Query ::
  "'s engine \<Rightarrow> Config \<Rightarrow> 's session \<Rightarrow> (db_error + bookkeeping_row list) \<times> 's session" where
  "tx_Query eng c s =
     (let cl = Query (select_sql c) in
      case tx s of
        None \<Rightarrow> (Inl TxDone, record_call cl (Some TxDone) s)
      | Some w \<Rightarrow>
          (case fault eng cl w of
             Some err \<Rightarrow> (Inl err, record_call cl (Some err) s)
           | None \<Rightarrow>
               (case tables w (table c) of
                  None \<Rightarrow> (Inl (UndefinedTable (table c)),
                            record_call cl (Some (UndefinedTable (table c))) s)
                | Some rows \<Rightarrow> (Inr (sort_key row_id rows), record_call cl None s))))"

text \<open>
  The loop \<^verbatim>\<open>for rows.Next() { ... }\<close> of \<^verbatim>\<open>verifyMigrations\<close> with the check of
  \<^verbatim>\<open>rows.Err()\<close> after it, from the \<open>n\<close>-th row on: a failure of \<^verbatim>\<open>rows.Next\<close> ends the
  loop and is what \<^verbatim>\<open>rows.Err()\<close> returns.
\<close>

fun verifyRows ::
  "'s engine \<Rightarrow> 's database \<Rightarrow> nat \<Rightarrow> bookkeeping_row list \<Rightarrow> Migrations \<Rightarrow> error + Migrations" where
  "verifyRows eng w n [] ms =
     (case next_fault eng n w of
        Some err \<Rightarrow> Inl (DriverError err)
      | None \<Rightarrow> Inr ms)"
| "verifyRows eng w n (r # rs) ms =
     (case next_fault eng n w of
        Some err \<Rightarrow> Inl (DriverError err)
      | None \<Rightarrow>
          (case scan_fault eng n w of
             Some err \<Rightarrow> Inl (DriverError err)
           | None \<Rightarrow>
               (let dbM = row_migration r in
                case ms of
                  [] \<Rightarrow> Inl (UnknownMigration (ID dbM))
                | m # ms' \<Rightarrow>
                    if dbM \<noteq> m then Inl (ModifiedMigration (ID dbM))
                    else verifyRows eng w (Suc n) rs ms')))"

text \<open>\<^verbatim>\<open>func (c *Config) verifyMigrations(tx *sql.Tx, ms Migrations) (Migrations, error)\<close>.\<close>

definition verifyMigrations ::
  "'s engine \<Rightarrow> Config \<Rightarrow> Migrations \<Rightarrow> 's session \<Rightarrow> (error + Migrations) \<times> 's session" where
  "verifyMigrations eng c ms s =
     (case tx_Query eng c s of
        (Inl err, s') \<Rightarrow> (Inl (DriverError err), s')
      | (Inr rows, s') \<Rightarrow>
          (case tx s' of
             None \<Rightarrow> (Inl (DriverError TxDone), s')
           | Some w \<Rightarrow> (verifyRows eng w 0 rows ms, s')))"

text \<open>
  The effect of the \<^verbatim>\<open>INSERT\<close> of \<^verbatim>\<open>applyMigrations\<close>: one more row, after those present.
\<close>

definition insert_effect ::
  "'s engine \<Rightarrow> Config \<Rightarrow> Migration \<Rightarrow> nat \<Rightarrow> 's database \<Rightarrow> db_error + 's database" where
  "insert_effect eng c m duration w =
     (case fault eng (ExecInsert (insert_sql c) (ID m) (Description m) (SQL m) duration) w of
        Some err \<Rightarrow> Inl err
      | None \<Rightarrow>
          (case tables w (table c) of
             None \<Rightarrow> Inl (UndefinedTable (table c))
           | Some rows \<Rightarrow>
               Inr (w\<lparr>tables := (tables w)(table c := Some (rows @
                      [\<lparr>row_id = ID m, row_description = Description m, row_sql = SQL m,
                        row_duration = duration, row_created = clock eng w\<rparr>]))\<rparr>)))"

text \<open>
  The loop \<^verbatim>\<open>for _, m := range ms\<close> of \<^verbatim>\<open>applyMigrations\<close>: the statement of the migration,
  the time it took, then the row; the first error ends the loop.
\<close>

fun applyLoop :: "'s engine \<Rightarrow> Config \<Rightarrow> Migrations \<Rightarrow> 's session \<Rightarrow> error option \<times> 's session" where
  "applyLoop eng c [] s = (None, s)"
| "applyLoop eng c (m # ms) s =
     (let duration = (case tx s of None \<Rightarrow> 0 | Some w \<Rightarrow> elapsed eng (SQL m) w) in
      case tx_Exec (Exec (SQL m)) (statement eng (SQL m)) s of
        (Some err, s1) \<Rightarrow> (Some (MigrationFailed (ID m) (Description m) err), s1)
      | (None, s1) \<Rightarrow>
          (case tx_Exec (ExecInsert (insert_sql c) (ID m) (Description m) (SQL m) duration)
                  (insert_effect eng c m duration) s1 of
             (Some err, s2) \<Rightarrow> (Some (MigrationFailed (ID m) (Description m) err), s2)
           | (None, s2) \<Rightarrow> applyLoop eng c ms s2))"

text \<open>\<^verbatim>\<open>func (c *Config) applyMigrations(tx *sql.Tx, ms Migrations) (Migrations, error)\<close>.\<close>

definition applyMigrations ::
  "'s engine \<Rightarrow> Config \<Rightarrow> Migrations \<Rightarrow> 's session \<Rightarrow> (error + Migrations) \<times> 's session" where
  "applyMigrations eng c ms s =
     (case applyLoop eng c ms s of
        (Some err, s1) \<Rightarrow> (Inl err, s1)
      | (None, s1) \<Rightarrow>
          (case tx_Commit eng s1 of
             (Some err, s2) \<Rightarrow> (Inl (DriverError err), s2)
           | (None, s2) \<Rightarrow> (Inr ms, s2)))"

text \<open>
  \<^verbatim>\<open>func (c *Config) Migrate(db *sql.DB, ms Migrations) (Migrations, error)\<close>. The deferred
  \<^verbatim>\<open>tx.Rollback()\<close> runs on every return after a successful \<^verbatim>\<open>Begin\<close>.
\<close>

definition Migrate ::
  "'s engine \<Rightarrow> Config \<Rightarrow> Migrations \<Rightarrow> 's session \<Rightarrow> (error + Migrations) \<times> 's session" where
  "Migrate eng c ms s =
     (case Migrations_Valid ms of
        Some err \<Rightarrow> (Inl err, s)
      | None \<Rightarrow>
          (case db_Begin eng s of
             (Some err, s1) \<Rightarrow> (Inl (DriverError err), s1)
           | (None, s1) \<Rightarrow>
               (let (r, s2) =
                      (case init eng c s1 of
                         (Some err, s2) \<Rightarrow> (Inl (DriverError err), s2)
                       | (None, s2) \<Rightarrow>
                           (case verifyMigrations eng c ms s2 of
                              (Inl err, s3) \<Rightarrow> (Inl err, s3)
                            | (Inr ms', s3) \<Rightarrow> applyMigrations eng c ms' s3))
                in (r, tx_Rollback s2))))"

section \<open>Notions the properties are stated with\<close>

text \<open>
  The recorded history of a database: the migrations the \<^verbatim>\<open>SELECT\<close> of \<^verbatim>\<open>verifyMigrations\<close>
  delivers, in ascending order of id (none when the table does not exist yet), and their ids.
\<close>

definition recorded :: "Config \<Rightarrow> 's database \<Rightarrow> Migrations" where
  "recorded c w = map row_migration (sort_key row_id (rows_of c w))"

definition recorded_ids :: "Config \<Rightarrow> 's database \<Rightarrow> int list" where
  "recorded_ids c w = map row_id (sort_key row_id (rows_of c w))"

text \<open>The ids \<open>1, ..., k\<close>.\<close>

definition ids_upto :: "nat \<Rightarrow> int list" where
  "ids_upto k = map (\<lambda>i. int i + 1) [0..<k]"

text \<open>
  Reading a result of \<open>n\<close> rows meets no failure of \<^verbatim>\<open>rows.Next\<close> (called \<open>n+1\<close> times) or
  of \<^verbatim>\<open>rows.Scan\<close> (called \<open>n\<close> times).
\<close>

definition reads_cleanly :: "'s engine \<Rightarrow> 's database \<Rightarrow> nat \<Rightarrow> bool" where
  "reads_cleanly eng w n =
     (list_all (\<lambda>k. next_fault eng k w = None) [0..<Suc n]
      \<and> list_all (\<lambda>k. scan_fault eng k w = None) [0..<n])"

text \<open>
  In the state \<open>s\<close> the history is read without a failure and is \<open>R\<close>: a transaction is
  open, the query is served, the table exists, and its rows in ascending order of id, read
  back as migrations, are \<open>R\<close>.
\<close>

definition history_read :: "'s engine \<Rightarrow> Config \<Rightarrow> 's session \<Rightarrow> Migrations \<Rightarrow> bool" where
  "history_read eng c s R =
     (case tx s of
        None \<Rightarrow> False
      | Some w \<Rightarrow>
          fault eng (Query (select_sql c)) w = None
          \<and> (case tables w (table c) of
                None \<Rightarrow> False
              | Some rows \<Rightarrow>
                  R = map row_migration (sort_key row_id rows)
                  \<and> reads_cleanly eng w (length rows)))"

text \<open>
  The verification algorithm in the words of the specification, on the recorded sequence
  and the candidate sequence, for comparison with \<open>verifyRows\<close>.
\<close>

fun verify_spec :: "Migrations \<Rightarrow> Migrations \<Rightarrow> error + Migrations" where
  "verify_spec [] candidate = Inr candidate"
| "verify_spec (r # rs) [] = Inl (UnknownMigration (ID r))"
| "verify_spec (r # rs) (m # candidate) =
     (if r \<noteq> m then Inl (ModifiedMigration (ID r)) else verify_spec rs candidate)"

text \<open>
  The state a transaction reaches when the statement of each migration of a list is
  executed and its row is inserted, in the order of the list; \<open>None\<close> when a step fails.
\<close>

fun apply_all :: "'s engine \<Rightarrow> Config \<Rightarrow> Migrations \<Rightarrow> 's database \<Rightarrow> 's database option" where
  "apply_all eng c [] w = Some w"
| "apply_all eng c (m # ms) w =
     (case statement eng (SQL m) w of
        Inl err \<Rightarrow> None
      | Inr w1 \<Rightarrow>
          (case insert_effect eng c m (elapsed eng (SQL m) w) w1 of
             Inl err \<Rightarrow> None
           | Inr w2 \<Rightarrow> apply_all eng c ms w2))"

text \<open>
  The driver and the server never fail a call of the package itself. (The statements of
  migrations may still fail.)
\<close>

definition fault_free :: "'s engine \<Rightarrow> bool" where
  "fault_free eng =
     ((\<forall>cl w. fault eng cl w = None) \<and> (\<forall>n w. next_fault eng n w = None)
      \<and> (\<forall>n w. scan_fault eng n w = None))"

text \<open>
  No statement of a migration writes to the bookkeeping table of the configuration: what
  it leaves behind when it succeeds has the table as it found it.
\<close>

definition leaves_bookkeeping :: "'s engine \<Rightarrow> Config \<Rightarrow> bool" where
  "leaves_bookkeeping eng c =
     (\<forall>text w w'. statement eng text w = Inr w' \<longrightarrow> tables w' (table c) = tables w (table c))"

text \<open>
  The texts passed to \<^verbatim>\<open>tx.Exec\<close> without arguments among some calls, in the order of the
  calls, and whether a call succeeded.
\<close>

fun exec_text :: "event \<Rightarrow> string list" where
  "exec_text (Exec text, outcome) = [text]"
| "exec_text (cl, outcome) = []"

definition statements_run :: "event list \<Rightarrow> string list" where
  "statements_run evs = concat (map exec_text evs)"

definition succeeded :: "event \<Rightarrow> bool" where
  "succeeded ev = (snd ev = None)"

section \<open>Example values\<close>

text \<open>The migrations of the package's tests, and one with an id that is not positive.\<close>

definition migration_1_foo :: Migration where
  "migration_1_foo = \<lparr>ID = 1, Description = ''1_foo.sql'', SQL = ''SELECT 1''\<rparr>"

definition migration_2_bar :: Migration where
  "migration_2_bar = \<lparr>ID = 2, Description = ''2_bar.sql'', SQL = ''SELECT 2''\<rparr>"

definition migration_0_bad :: Migration where
  "migration_0_bad = \<lparr>ID = 0, Description = ''0_bad.sql'', SQL = ''SELECT 0''\<rparr>"

definition migration_2_div0 :: Migration where
  "migration_2_div0 = \<lparr>ID = 2, Description = ''2_div0.sql'', SQL = ''SELECT 1/0''\<rparr>"

definition migration_1_edited :: Migration where
  "migration_1_edited = \<lparr>ID = 1, Description = ''1_foo.sql'', SQL = ''SELECT 11''\<rparr>"

definition migration_2_wipe :: Migration where
  "migration_2_wipe = \<lparr>ID = 2, Description = ''2_wipe.sql'', SQL = ''DELETE FROM migrations.migrations''\<rparr>"

text \<open>
  An environment for the examples. Its objects are the statements executed so far; the
  statement \<^verbatim>\<open>SELECT 1/0\<close> fails, the statement \<^verbatim>\<open>DELETE FROM migrations.migrations\<close>
  removes the rows of the bookkeeping table of the default configuration, every other
  statement succeeds, and no call of the package fails.
\<close>

definition example_statement ::
  "string \<Rightarrow> string list database \<Rightarrow> db_error + string list database" where
  "example_statement text w =
     (if text = ''SELECT 1/0'' then Inl (EngineError ''division by zero'')
      else if text = ''DELETE FROM migrations.migrations''
        then Inr (w\<lparr>objects := objects w @ [text],
                    tables := (tables w)(table DefaultConfig := Some [])\<rparr>)
      else Inr (w\<lparr>objects := objects w @ [text]\<rparr>))"

definition example_engine :: "string list engine" where
  "example_engine =
     \<lparr>fault = (\<lambda>cl w. None), next_fault = (\<lambda>n w. None), scan_fault = (\<lambda>n w. None),
      statement = example_statement, elapsed = (\<lambda>text w. 0), clock = (\<lambda>w. 0)\<rparr>"

text \<open>The same environment with statements that only add to the objects.\<close>

definition plain_statement ::
  "string \<Rightarrow> string list database \<Rightarrow> db_error + string list database" where
  "plain_statement text w =
     (if text = ''SELECT 1/0'' then Inl (EngineError ''division by zero'')
      else Inr (w\<lparr>objects := objects w @ [text]\<rparr>))"

definition plain_engine :: "string list engine" where
  "plain_engine =
     \<lparr>fault = (\<lambda>cl w. None), next_fault = (\<lambda>n w. None), scan_fault = (\<lambda>n w. None),
      statement = plain_statement, elapsed = (\<lambda>text w. 0), clock = (\<lambda>w. 0)\<rparr>"

definition row_1_foo :: bookkeeping_row where
  "row_1_foo = \<lparr>row_id = 1, row_description = ''1_foo.sql'', row_sql = ''SELECT 1'',
                row_duration = 0, row_created = 0\<rparr>"

definition row_2_bar :: bookkeeping_row where
  "row_2_bar = \<lparr>row_id = 2, row_description = ''2_bar.sql'', row_sql = ''SELECT 2'',
                row_duration = 0, row_created = 0\<rparr>"

text \<open>
  A database without a bookkeeping table, and the databases in which migration 1, and
  migrations 1 and 2, have been applied under the default configuration.
\<close>

definition empty_database :: "string list database" where
  "empty_database = \<lparr>objects = [], tables = (\<lambda>name. None)\<rparr>"

definition database_1 :: "string list database" where
  "database_1 =
     \<lparr>objects = [''SELECT 1''], tables = (\<lambda>name. None)(table DefaultConfig := Some [row_1_foo])\<rparr>"

definition database_12 :: "string list database" where
  "database_12 =
     \<lparr>objects = [''SELECT 1'', ''SELECT 2''],
      tables = (\<lambda>name. None)(table DefaultConfig := Some [row_1_foo, row_2_bar])\<rparr>"

definition idle :: "string list database \<Rightarrow> string list session" where
  "idle w = \<lparr>committed = w, tx = None, calls = []\<rparr>"

definition in_tx :: "string list database \<Rightarrow> string list session" where
  "in_tx w = \<lparr>committed = w, tx = Some w, calls = [(Begin, None)]\<rparr>"

section \<open>Validation\<close>

lemma Valid_from_None_iff:
  "Valid_from i ms = None \<longleftrightarrow>
     map ID ms = map (\<lambda>j. int j + 1) [i..<i + length ms] \<and> (\<forall>m\<in>set ms. Migration_Valid m = None)"
proof (induction ms arbitrary: i)
  case Nil
  then show ?case by simp
next
  case (Cons m ms)
  have u: "[i..<i + length (m # ms)] = i # [Suc i..<Suc i + length ms]"
    by (subst upt_rec) simp
  show ?case
    unfolding u using Cons.IH [of "Suc i"]
    by (auto split: option.splits)
qed

lemma Migrations_Valid_None_iff:
  "Migrations_Valid ms = None \<longleftrightarrow> dense_as_given ms \<and> (\<forall>m\<in>set ms. Migration_Valid m = None)"
  by (simp add: Migrations_Valid_def dense_as_given_def Valid_from_None_iff)

lemma Valid_from_not_InvalidID: "Valid_from i ms \<noteq> Some (InvalidMigration k (InvalidID n))"
  by (induction ms arbitrary: i) (auto simp: Migration_Valid_def split: option.splits if_splits)

lemma Valid_from_all_valid_error:
  "\<forall>m\<in>set ms. Migration_Valid m = None \<Longrightarrow> Valid_from i ms = Some e \<Longrightarrow>
     \<exists>g w. e = UnexpectedMigrationID g w"
  by (induction ms arbitrary: i) (auto split: option.splits if_splits)

lemma Valid_from_append:
  "Valid_from i (xs @ ys) = (case Valid_from i xs of Some e \<Rightarrow> Some e | None \<Rightarrow> Valid_from (i + length xs) ys)"
  by (induction xs arbitrary: i) (auto split: option.splits)

lemma dense_as_given_nth:
  "dense_as_given ms \<longleftrightarrow> (\<forall>i<length ms. ID (ms ! i) = int i + 1)"
proof
  assume d: "dense_as_given ms"
  show "\<forall>i<length ms. ID (ms ! i) = int i + 1"
  proof (intro allI impI)
    fix i assume i: "i < length ms"
    then have "ID (ms ! i) = map ID ms ! i" by simp
    also have "\<dots> = map (\<lambda>i. int i + 1) [0..<length ms] ! i"
      using d by (simp only: dense_as_given_def)
    also have "\<dots> = int i + 1" using i by simp
    finally show "ID (ms ! i) = int i + 1" .
  qed
next
  assume "\<forall>i<length ms. ID (ms ! i) = int i + 1"
  then show "dense_as_given ms"
    unfolding dense_as_given_def by (intro nth_equalityI) simp_all
qed

lemma dense_sorted: "dense_as_given ms \<Longrightarrow> sorted (map ID ms)"
  by (simp add: dense_as_given_def sorted_map sorted_wrt_map strict_sorted_iff)

lemma dense_as_given_sorted_iff:
  "dense_as_given ms \<longleftrightarrow> spec_sorted_dense ms \<and> sort_by_id ms = ms"
proof
  assume d: "dense_as_given ms"
  then have "sort_by_id ms = ms"
    unfolding sort_by_id_def by (intro sort_key_id_if_sorted dense_sorted)
  with d show "spec_sorted_dense ms \<and> sort_by_id ms = ms"
    by (simp add: spec_sorted_dense_def dense_as_given_def)
next
  assume a: "spec_sorted_dense ms \<and> sort_by_id ms = ms"
  then have 1: "spec_sorted_dense ms" and 2: "sort_by_id ms = ms"
    by (rule conjunct1, rule conjunct2)
  show "dense_as_given ms"
    using 1 unfolding spec_sorted_dense_def dense_as_given_def 2 .
qed

lemma dense_ids_set: "dense_as_given ms \<Longrightarrow> ID ` set ms = {1..int (length ms)}"
proof -
  assume "dense_as_given ms"
  then have "set (map ID ms) = set (map (\<lambda>i. int i + 1) [0..<length ms])"
    by (simp add: dense_as_given_def)
  also have "\<dots> = {1..int (length ms)}"
  proof (intro set_eqI iffI)
    fix k assume "k \<in> set (map (\<lambda>i. int i + 1) [0..<length ms])"
    then show "k \<in> {1..int (length ms)}" by auto
  next
    fix k assume k: "k \<in> {1..int (length ms)}"
    then have "nat (k - 1) < length ms" "k = int (nat (k - 1)) + 1" by auto
    then show "k \<in> set (map (\<lambda>i. int i + 1) [0..<length ms])"
      by (auto simp: image_iff intro!: bexI [of _ "nat (k - 1)"])
  qed
  finally show ?thesis by simp
qed

text \<open>
  Claim C3, as amended. \<^verbatim>\<open>Migrations.Valid\<close> reads the sequence in the order in which it is
  presented and does not sort it. For a sequence whose migrations are each valid
  (id at least 1, description and statement not empty), validation succeeds if and only if
  the sequence as presented has \<open>id[i] = i+1\<close> at every position; that is, if and only if
  the sorted sequence is dense and the sequence is already in ascending order of id. A
  sequence of length \<open>N\<close> that misses an id of \<open>1..N\<close>, or that starts above 1, fails with
  the error for an unexpected migration id.
\<close>

theorem Migrations_Valid_as_given:
  assumes "\<forall>m\<in>set ms. Migration_Valid m = None"
  shows "(Migrations_Valid ms = None \<longleftrightarrow> (\<forall>i<length ms. ID (ms ! i) = int i + 1))
       \<and> (Migrations_Valid ms = None \<longleftrightarrow> spec_sorted_dense ms \<and> sort_by_id ms = ms)
       \<and> ((\<exists>k\<in>{1..int (length ms)}. k \<notin> ID ` set ms) \<longrightarrow>
            (\<exists>g w. Migrations_Valid ms = Some (UnexpectedMigrationID g w)))
       \<and> (ms \<noteq> [] \<and> 1 < ID (hd ms) \<longrightarrow>
            Migrations_Valid ms = Some (UnexpectedMigrationID (ID (hd ms)) 1))"
proof (intro conjI)
  show "Migrations_Valid ms = None \<longleftrightarrow> (\<forall>i<length ms. ID (ms ! i) = int i + 1)"
    using assms by (simp add: Migrations_Valid_None_iff dense_as_given_nth)
  show "Migrations_Valid ms = None \<longleftrightarrow> spec_sorted_dense ms \<and> sort_by_id ms = ms"
    using assms by (simp add: Migrations_Valid_None_iff dense_as_given_sorted_iff)
  show "(\<exists>k\<in>{1..int (length ms)}. k \<notin> ID ` set ms) \<longrightarrow>
          (\<exists>g w. Migrations_Valid ms = Some (UnexpectedMigrationID g w))"
  proof
    assume "\<exists>k\<in>{1..int (length ms)}. k \<notin> ID ` set ms"
    then have "\<not> dense_as_given ms"
      using dense_ids_set [of ms] by blast
    then have "Migrations_Valid ms \<noteq> None"
      by (simp add: Migrations_Valid_None_iff)
    then obtain e where e: "Migrations_Valid ms = Some e" by blast
    then have "\<exists>g w. e = UnexpectedMigrationID g w"
      using assms Valid_from_all_valid_error [of ms 0 e] by (simp add: Migrations_Valid_def)
    with e show "\<exists>g w. Migrations_Valid ms = Some (UnexpectedMigrationID g w)" by blast
  qed
  show "ms \<noteq> [] \<and> 1 < ID (hd ms) \<longrightarrow>
          Migrations_Valid ms = Some (UnexpectedMigrationID (ID (hd ms)) 1)"
    by (cases ms) (simp_all add: Migrations_Valid_def)
qed

theorem Migrations_Valid_as_given_witness:
  "Migration_Valid migration_1_foo = None \<and> Migration_Valid migration_2_bar = None
   \<and> Migrations_Valid [migration_1_foo, migration_2_bar] = None
   \<and> sort_by_id [migration_1_foo, migration_2_bar] = [migration_1_foo, migration_2_bar]
   \<and> (\<exists>k\<in>{1..int (length [migration_2_bar])}. k \<notin> ID ` set [migration_2_bar])
   \<and> 1 < ID (hd [migration_2_bar])
   \<and> Migrations_Valid [migration_2_bar] = Some (UnexpectedMigrationID 2 1)"
proof -
  have a: "\<forall>m\<in>set [migration_1_foo, migration_2_bar]. Migration_Valid m = None"
    by (simp add: Migration_Valid_def migration_1_foo_def migration_2_bar_def)
  have b: "\<forall>m\<in>set [migration_2_bar]. Migration_Valid m = None"
    by (simp add: Migration_Valid_def migration_2_bar_def)
  have c: "\<forall>i<length [migration_1_foo, migration_2_bar].
             ID ([migration_1_foo, migration_2_bar] ! i) = int i + 1"
    by (simp add: migration_1_foo_def migration_2_bar_def less_Suc_eq)
  have d: "\<exists>k\<in>{1..int (length [migration_2_bar])}. k \<notin> ID ` set [migration_2_bar]"
    by (simp add: migration_2_bar_def)
  have e: "ID (hd [migration_2_bar]) = 2"
    by (simp add: migration_2_bar_def)
  note t1 = Migrations_Valid_as_given [OF a]
  note t2 = Migrations_Valid_as_given [OF b]
  from t1 c have v: "Migrations_Valid [migration_1_foo, migration_2_bar] = None"
    by blast
  with t1 have s: "sort_by_id [migration_1_foo, migration_2_bar] = [migration_1_foo, migration_2_bar]"
    by blast
  from t2 e have u: "Migrations_Valid [migration_2_bar] = Some (UnexpectedMigrationID 2 1)"
    by simp
  from a b d e v s u show ?thesis
    by simp
qed

text \<open>
  Claim C3 as stated fails: the two valid migrations with ids 2 and 1, presented in this
  order, have ids exactly \<open>{1, 2}\<close> and are dense once sorted, and validation rejects them.
\<close>

theorem Migrations_Valid_sorted_counterexample:
  "Migration_Valid migration_2_bar = None \<and> Migration_Valid migration_1_foo = None
   \<and> spec_sorted_dense [migration_2_bar, migration_1_foo]
   \<and> Migrations_Valid [migration_2_bar, migration_1_foo] = Some (UnexpectedMigrationID 2 1)"
  by (simp add: Migration_Valid_def Migrations_Valid_def spec_sorted_dense_def sort_by_id_def
      migration_1_foo_def migration_2_bar_def)

text \<open>
  Claim C10. \<^verbatim>\<open>Migrations.Valid\<close> never returns the error for an invalid id of
  \<^verbatim>\<open>Migration.Valid\<close>: the id is compared with \<open>i+1\<close> first. When the loop reaches a
  position whose id is below 1, the result is the error for an unexpected migration id
  with that id and \<open>i+1\<close>; and a sequence that holds such an id always fails, with an error
  other than the one for an invalid id.
\<close>

theorem Migrations_Valid_never_invalid_id:
  "Migrations_Valid ms \<noteq> Some (InvalidMigration k (InvalidID n))
   \<and> (i < length ms \<and> ID (ms ! i) < 1 \<and> Migrations_Valid (take i ms) = None \<longrightarrow>
        Migrations_Valid ms = Some (UnexpectedMigrationID (ID (ms ! i)) (int i + 1)))
   \<and> ((\<exists>m\<in>set ms. ID m < 1) \<longrightarrow>
        (\<exists>e. Migrations_Valid ms = Some e \<and> (\<forall>k n. e \<noteq> InvalidMigration k (InvalidID n))))"
proof (intro conjI)
  show 1: "Migrations_Valid ms \<noteq> Some (InvalidMigration k (InvalidID n))" for k n
    by (simp add: Migrations_Valid_def Valid_from_not_InvalidID)
  show "i < length ms \<and> ID (ms ! i) < 1 \<and> Migrations_Valid (take i ms) = None \<longrightarrow>
          Migrations_Valid ms = Some (UnexpectedMigrationID (ID (ms ! i)) (int i + 1))"
  proof
    assume a: "i < length ms \<and> ID (ms ! i) < 1 \<and> Migrations_Valid (take i ms) = None"
    then have ms: "ms = take i ms @ ms ! i # drop (Suc i) ms"
      by (simp add: id_take_nth_drop [symmetric])
    have "Valid_from 0 (take i ms @ ms ! i # drop (Suc i) ms)
            = Some (UnexpectedMigrationID (ID (ms ! i)) (int i + 1))"
      using a by (simp add: Valid_from_append Migrations_Valid_def min_def)
    with ms show "Migrations_Valid ms = Some (UnexpectedMigrationID (ID (ms ! i)) (int i + 1))"
      by (simp add: Migrations_Valid_def)
  qed
  show "(\<exists>m\<in>set ms. ID m < 1) \<longrightarrow>
          (\<exists>e. Migrations_Valid ms = Some e \<and> (\<forall>k n. e \<noteq> InvalidMigration k (InvalidID n)))"
  proof
    assume "\<exists>m\<in>set ms. ID m < 1"
    then have "\<exists>m\<in>set ms. Migration_Valid m \<noteq> None"
      by (auto simp: Migration_Valid_def)
    then have "Migrations_Valid ms \<noteq> None"
      by (auto simp: Migrations_Valid_None_iff)
    then obtain e where "Migrations_Valid ms = Some e" by blast
    with 1 show "\<exists>e. Migrations_Valid ms = Some e \<and> (\<forall>k n. e \<noteq> InvalidMigration k (InvalidID n))"
      by auto
  qed
qed

theorem Migrations_Valid_never_invalid_id_witness:
  "0 < length [migration_0_bad] \<and> ID ([migration_0_bad] ! 0) < 1
   \<and> Migrations_Valid (take 0 [migration_0_bad]) = None
   \<and> (\<exists>m\<in>set [migration_0_bad]. ID m < 1)
   \<and> Migration_Valid migration_0_bad = Some (InvalidID 0)
   \<and> Migrations_Valid [migration_0_bad] = Some (UnexpectedMigrationID 0 1)"
proof -
  have a: "0 < length [migration_0_bad] \<and> ID ([migration_0_bad] ! 0) < 1
             \<and> Migrations_Valid (take 0 [migration_0_bad]) = None"
    by (simp add: migration_0_bad_def Migrations_Valid_def)
  have b: "ID migration_0_bad = 0" "Migration_Valid migration_0_bad = Some (InvalidID 0)"
    by (simp_all add: migration_0_bad_def Migration_Valid_def)
  show ?thesis
    using a b Migrations_Valid_never_invalid_id [of "[migration_0_bad]" _ _ 0]
    by simp
qed

section \<open>Quoting\<close>

lemma NUL_neq_dquote: "NUL \<noteq> dquote" "dquote \<noteq> NUL"
  by (simp_all add: NUL_def dquote_def)


lemma IndexByte_takeWhile:
  "IndexByte xs b = (if b \<in> set xs then int (length (takeWhile (\<lambda>c. c \<noteq> b) xs)) else - 1)"
  by (induction xs) (auto simp: Let_def)

lemma takeWhile_absent: "b \<notin> set xs \<Longrightarrow> takeWhile (\<lambda>c. c \<noteq> b) xs = xs"
  by (induction xs) auto

lemma truncate_takeWhile:
  "(if IndexByte xs b > - 1 then take (nat (IndexByte xs b)) xs else xs) = takeWhile (\<lambda>c. c \<noteq> b) xs"
proof (cases "b \<in> set xs")
  case True
  then show ?thesis
    by (simp add: IndexByte_takeWhile takeWhile_eq_take [symmetric])
next
  case False
  then show ?thesis
    by (simp add: IndexByte_takeWhile takeWhile_absent)
qed

lemma Replace_concat:
  "Replace xs old new = concat (map (\<lambda>c. if c = old then new else [c]) xs)"
  by (induction xs) auto

lemma read_quoted_body_Replace:
  "NUL \<notin> set n \<Longrightarrow> read_quoted_body (Replace n dquote [dquote, dquote] @ [dquote]) = Some (n, [])"
  by (induction n) (auto simp: NUL_neq_dquote)

lemma NUL_notin_takeWhile: "NUL \<notin> set (takeWhile (\<lambda>c. c \<noteq> NUL) name)"
  by (auto dest: set_takeWhileD)

text \<open>
  Claim C8. \<^verbatim>\<open>quoteIdentifier\<close> returns the input cut before its first NUL byte, with every
  double quote in it doubled, between one opening and one closing double quote. Read back
  as a quoted identifier, the output denotes exactly the cut input and is consumed to its
  last character: no quote inside it closes the identifier early.
\<close>

theorem quoteIdentifier_spec:
  "quoteIdentifier name =
     [dquote] @ concat (map (\<lambda>c. if c = dquote then [dquote, dquote] else [c])
                          (takeWhile (\<lambda>c. c \<noteq> NUL) name)) @ [dquote]
   \<and> read_quoted_identifier (quoteIdentifier name) = Some (takeWhile (\<lambda>c. c \<noteq> NUL) name, [])"
proof -
  have q: "quoteIdentifier name =
        [dquote] @ Replace (takeWhile (\<lambda>c. c \<noteq> NUL) name) dquote [dquote, dquote] @ [dquote]"
    unfolding quoteIdentifier_def Let_def truncate_takeWhile ..
  have r: "read_quoted_identifier (quoteIdentifier name) = Some (takeWhile (\<lambda>c. c \<noteq> NUL) name, [])"
    unfolding q read_quoted_identifier_def
    using read_quoted_body_Replace [OF NUL_notin_takeWhile, of name] by simp
  from q r show ?thesis
    by (simp add: Replace_concat)
qed

section \<open>Verification of the recorded history\<close>

lemma record_call_fields [simp]:
  "committed (record_call cl r s) = committed s"
  "tx (record_call cl r s) = tx s"
  "calls (record_call cl r s) = calls s @ [(cl, r)]"
  by (simp_all add: record_call_def)

lemma verify_spec_prefix:
  "length R \<le> length C \<Longrightarrow> take (length R) C = R \<Longrightarrow> verify_spec R C = Inr (drop (length R) C)"
proof (induction R C rule: verify_spec.induct)
  case (1 candidate)
  then show ?case by simp
next
  case (2 r rs)
  then show ?case by simp
next
  case (3 r rs m candidate)
  then show ?case by simp
qed

lemma verify_spec_exhausted:
  "length C < length R \<Longrightarrow> take (length C) R = C \<Longrightarrow>
     verify_spec R C = Inl (UnknownMigration (ID (R ! length C)))"
proof (induction R C rule: verify_spec.induct)
  case (1 candidate)
  then show ?case by simp
next
  case (2 r rs)
  then show ?case by simp
next
  case (3 r rs m candidate)
  then show ?case by simp
qed

lemma verify_spec_mismatch:
  "i < length R \<Longrightarrow> i < length C \<Longrightarrow> take i R = take i C \<Longrightarrow> R ! i \<noteq> C ! i \<Longrightarrow>
     verify_spec R C = Inl (ModifiedMigration (ID (R ! i)))"
proof (induction R C arbitrary: i rule: verify_spec.induct)
  case (1 candidate)
  then show ?case by simp
next
  case (2 r rs)
  then show ?case by simp
next
  case (3 r rs m candidate)
  show ?case
  proof (cases i)
    case 0
    with 3 show ?thesis by simp
  next
    case (Suc j)
    with 3 show ?thesis by simp
  qed
qed

lemma verify_spec_Inr:
  "verify_spec R C = Inr rest \<Longrightarrow> R = take (length R) C \<and> length R \<le> length C \<and> rest = drop (length R) C"
  by (induction R C rule: verify_spec.induct) (auto split: if_splits)

lemma verifyRows_spec:
  "\<forall>k. n \<le> k \<and> k \<le> n + length rows \<longrightarrow> next_fault eng k w = None \<Longrightarrow>
   \<forall>k. n \<le> k \<and> k < n + length rows \<longrightarrow> scan_fault eng k w = None \<Longrightarrow>
   verifyRows eng w n rows C = verify_spec (map row_migration rows) C"
proof (induction rows arbitrary: n C)
  case Nil
  then show ?case by simp
next
  case (Cons r rows)
  have n: "next_fault eng n w = None" "scan_fault eng n w = None"
    using Cons.prems by simp_all
  have ih: "verifyRows eng w (Suc n) rows C' = verify_spec (map row_migration rows) C'" for C'
    using Cons.prems by (intro Cons.IH) auto
  show ?case
    by (cases C) (simp_all add: n ih Let_def)
qed

lemma verifyRows_Inr:
  "verifyRows eng w n rows C = Inr rest \<Longrightarrow>
     map row_migration rows = take (length rows) C \<and> length rows \<le> length C \<and> rest = drop (length rows) C"
proof (induction rows arbitrary: n C)
  case Nil
  then show ?case by (auto split: option.splits)
next
  case (Cons r rows)
  then show ?case
    by (cases C) (auto simp: Let_def split: option.splits if_splits)
qed

lemma reads_cleanly_iff:
  "reads_cleanly eng w n \<longleftrightarrow>
     (\<forall>k\<le>n. next_fault eng k w = None) \<and> (\<forall>k<n. scan_fault eng k w = None)"
  by (auto simp: reads_cleanly_def list_all_iff less_Suc_eq_le)

lemma verifyMigrations_history_read:
  assumes "history_read eng c s R"
  shows "fst (verifyMigrations eng c C s) = verify_spec R C"
proof -
  from assms obtain w rows where w: "tx s = Some w"
    and q: "fault eng (Query (select_sql c)) w = None"
    and t: "tables w (table c) = Some rows"
    and R: "R = map row_migration (sort_key row_id rows)"
    and rc: "reads_cleanly eng w (length rows)"
    by (auto simp: history_read_def split: option.splits)
  have "verifyRows eng w 0 (sort_key row_id rows) C = verify_spec (map row_migration (sort_key row_id rows)) C"
    using rc by (intro verifyRows_spec) (auto simp: reads_cleanly_iff)
  then show ?thesis
    using w q t R by (simp add: verifyMigrations_def tx_Query_def Let_def)
qed

text \<open>
  Claim C1. When the history is read without a failure and is \<open>R\<close>, \<^verbatim>\<open>verifyMigrations\<close>
  compares it with the candidate sequence \<open>C\<close> head by head: if \<open>R\<close> is the first
  \<open>|R|\<close> elements of \<open>C\<close> it returns \<open>C\<close> without them; if \<open>C\<close> is a proper prefix of \<open>R\<close>
  it fails with the error for an unknown migration that names the id of the first recorded
  migration beyond \<open>C\<close>; and if the two differ first at a position \<open>i\<close> it fails with the
  error for a modified migration that names the id recorded there.
\<close>

theorem verifyMigrations_prefix_match:
  assumes "history_read eng c s R"
  shows "(length R \<le> length C \<and> take (length R) C = R \<longrightarrow>
            fst (verifyMigrations eng c C s) = Inr (drop (length R) C))
       \<and> (length C < length R \<and> take (length C) R = C \<longrightarrow>
            fst (verifyMigrations eng c C s) = Inl (UnknownMigration (ID (R ! length C))))
       \<and> (\<forall>i. i < length R \<and> i < length C \<and> take i R = take i C \<and> R ! i \<noteq> C ! i \<longrightarrow>
            fst (verifyMigrations eng c C s) = Inl (ModifiedMigration (ID (R ! i))))"
  unfolding verifyMigrations_history_read [OF assms]
  by (simp add: verify_spec_prefix verify_spec_exhausted verify_spec_mismatch)

lemma history_read_in_tx_database_1:
  "history_read example_engine DefaultConfig (in_tx database_1) [migration_1_foo]"
  by (simp add: history_read_def in_tx_def database_1_def example_engine_def reads_cleanly_def
      row_migration_def row_1_foo_def migration_1_foo_def)

theorem verifyMigrations_prefix_match_witness:
  "history_read example_engine DefaultConfig (in_tx database_1) [migration_1_foo]
   \<and> fst (verifyMigrations example_engine DefaultConfig [migration_1_foo, migration_2_bar] (in_tx database_1))
       = Inr [migration_2_bar]
   \<and> fst (verifyMigrations example_engine DefaultConfig [migration_1_foo] (in_tx database_1)) = Inr []
   \<and> fst (verifyMigrations example_engine DefaultConfig [] (in_tx database_1)) = Inl (UnknownMigration 1)
   \<and> fst (verifyMigrations example_engine DefaultConfig [migration_1_edited] (in_tx database_1))
       = Inl (ModifiedMigration 1)"
proof -
  note h = history_read_in_tx_database_1
  have ne: "migration_1_foo \<noteq> migration_1_edited"
    by (simp add: migration_1_foo_def migration_1_edited_def)
  have i: "ID migration_1_foo = 1"
    by (simp add: migration_1_foo_def)
  show ?thesis
    using h i ne
      verifyMigrations_prefix_match [OF h, of "[migration_1_foo, migration_2_bar]"]
      verifyMigrations_prefix_match [OF h, of "[migration_1_foo]"]
      verifyMigrations_prefix_match [OF h, of "[]"]
      verifyMigrations_prefix_match [OF h, of "[migration_1_edited]"]
    by simp
qed

section \<open>The whole of Migrate\<close>

text \<open>
  Claim C9. When the candidate sequence fails validation, \<^verbatim>\<open>Migrate\<close> returns that error and
  leaves everything as it is: the committed state, no transaction, and no call to the
  driver at all.
\<close>

theorem Migrate_invalid_untouched:
  "Migrations_Valid ms = Some err \<Longrightarrow> Migrate eng c ms s = (Inl err, s)"
  by (simp add: Migrate_def)

theorem Migrate_invalid_untouched_witness:
  "Migrations_Valid [migration_2_bar] = Some (UnexpectedMigrationID 2 1)
   \<and> Migrate example_engine DefaultConfig [migration_2_bar] (idle database_1)
       = (Inl (UnexpectedMigrationID 2 1), idle database_1)"
proof -
  have v: "Migrations_Valid [migration_2_bar] = Some (UnexpectedMigrationID 2 1)"
    by (simp add: Migrations_Valid_def migration_2_bar_def)
  show ?thesis
    using v Migrate_invalid_untouched [OF v, of example_engine DefaultConfig "idle database_1"]
    by simp
qed

subsection \<open>The steps of a call\<close>

lemma tables_create_if_absent [simp]:
  "tables (create_if_absent c w) (table c) = Some (rows_of c w)"
  by (simp add: create_if_absent_def rows_of_def split: option.splits)

lemma rows_of_create_if_absent [simp]:
  "rows_of c (create_if_absent c w) = rows_of c w"
  by (simp add: rows_of_def [of c "create_if_absent c w"])

lemma create_if_absent_idem [simp]:
  "create_if_absent c (create_if_absent c w) = create_if_absent c w"
  by (simp add: create_if_absent_def [of c "create_if_absent c w"])

lemma db_Begin_result:
  assumes "db_Begin eng s = (r, s')"
  shows "committed s' = committed s"
    and "r = None \<Longrightarrow> tx s' = Some (committed s)"
    and "r = None \<Longrightarrow> fault eng Begin (committed s) = None"
    and "calls s' = calls s @ [(Begin, r)]"
  using assms by (auto simp: db_Begin_def split: option.splits)

lemma tx_Exec_result:
  assumes "tx_Exec cl f s = (r, s')"
  shows "committed s' = committed s"
    and "calls s' = calls s @ [(cl, r)]"
    and "r = None \<Longrightarrow> \<exists>w w'. tx s = Some w \<and> f w = Inr w' \<and> tx s' = Some w'"
    and "r \<noteq> None \<Longrightarrow> tx s' = tx s"
  using assms by (auto simp: tx_Exec_def split: option.splits sum.splits)

lemma tx_Query_result:
  assumes "tx_Query eng c s = (r, s')"
  shows "committed s' = committed s"
    and "tx s' = tx s"
    and "\<exists>outcome. calls s' = calls s @ [(Query (select_sql c), outcome)]"
    and "r = Inr rows \<Longrightarrow> \<exists>w stored. tx s = Some w \<and> tables w (table c) = Some stored
           \<and> rows = sort_key row_id stored"
  using assms by (auto simp: tx_Query_def Let_def split: option.splits)

lemma verifyMigrations_result:
  assumes "verifyMigrations eng c ms s = (r, s')"
  shows "committed s' = committed s"
    and "tx s' = tx s"
    and "\<exists>outcome. calls s' = calls s @ [(Query (select_sql c), outcome)]"
    and "r = Inr rest \<Longrightarrow> \<exists>w stored. tx s = Some w \<and> tables w (table c) = Some stored
           \<and> verifyRows eng w 0 (sort_key row_id stored) ms = Inr rest"
proof -
  obtain q sq where q: "tx_Query eng c s = (q, sq)" by (cases "tx_Query eng c s")
  note t = tx_Query_result [OF q]
  from assms q have s': "s' = sq"
    by (auto simp: verifyMigrations_def split: sum.splits option.splits)
  show "committed s' = committed s" "tx s' = tx s"
    "\<exists>outcome. calls s' = calls s @ [(Query (select_sql c), outcome)]"
    using t(1,2,3) by (simp_all add: s')
  show "\<exists>w stored. tx s = Some w \<and> tables w (table c) = Some stored
           \<and> verifyRows eng w 0 (sort_key row_id stored) ms = Inr rest" if "r = Inr rest"
  proof (cases q)
    case (Inl e)
    with assms q that show ?thesis by (simp add: verifyMigrations_def)
  next
    case (Inr rows)
    from t(4) [OF Inr] obtain w stored where w: "tx s = Some w" "tables w (table c) = Some stored"
      "rows = sort_key row_id stored" by blast
    with assms q that Inr t(2) s' show ?thesis
      by (auto simp: verifyMigrations_def)
  qed
qed

lemma tx_Commit_result:
  assumes "tx_Commit eng s = (r, s')"
  shows "tx s' = None \<or> tx s = None"
    and "r = None \<Longrightarrow> \<exists>w. tx s = Some w \<and> committed s' = w \<and> fault eng Commit w = None"
    and "r \<noteq> None \<Longrightarrow> committed s' = committed s"
    and "calls s' = calls s @ [(Commit, r)]"
  using assms by (auto simp: tx_Commit_def split: option.splits)

lemma tx_Rollback_fields [simp]:
  "committed (tx_Rollback s) = committed s"
  "tx (tx_Rollback s) = None"
  by (simp_all add: tx_Rollback_def split: option.splits)

lemma applyLoop_committed: "applyLoop eng c ms s = (r, s') \<Longrightarrow> committed s' = committed s"
proof (induction ms arbitrary: s)
  case Nil
  then show ?case by simp
next
  case (Cons m ms)
  obtain r1 s1 where e1: "tx_Exec (Exec (SQL m)) (statement eng (SQL m)) s = (r1, s1)"
    by (cases "tx_Exec (Exec (SQL m)) (statement eng (SQL m)) s")
  let ?d = "case tx s of None \<Rightarrow> 0 | Some w \<Rightarrow> elapsed eng (SQL m) w"
  obtain r2 s2 where e2: "tx_Exec (ExecInsert (insert_sql c) (ID m) (Description m) (SQL m) ?d)
                  (insert_effect eng c m ?d) s1 = (r2, s2)"
    by (cases "tx_Exec (ExecInsert (insert_sql c) (ID m) (Description m) (SQL m) ?d)
                  (insert_effect eng c m ?d) s1")
  note c1 = tx_Exec_result(1) [OF e1] and c2 = tx_Exec_result(1) [OF e2]
  show ?case
  proof (cases r1)
    case (Some e)
    with Cons.prems e1 c1 show ?thesis by (simp add: Let_def)
  next
    case None
    show ?thesis
    proof (cases r2)
      case (Some e)
      with Cons.prems e1 e2 None c1 c2 show ?thesis by (simp add: Let_def)
    next
      case n2: None
      with Cons.prems e1 e2 None have "applyLoop eng c ms s2 = (r, s')"
        by (simp add: Let_def)
      from Cons.IH [OF this] c1 c2 show ?thesis by simp
    qed
  qed
qed

lemma applyLoop_success:
  "applyLoop eng c ms s = (None, s') \<Longrightarrow> tx s = Some w \<Longrightarrow>
     \<exists>w'. tx s' = Some w' \<and> apply_all eng c ms w = Some w'"
proof (induction ms arbitrary: s w)
  case Nil
  then show ?case by simp
next
  case (Cons m ms)
  obtain r1 s1 where e1: "tx_Exec (Exec (SQL m)) (statement eng (SQL m)) s = (r1, s1)"
    by (cases "tx_Exec (Exec (SQL m)) (statement eng (SQL m)) s")
  let ?d = "elapsed eng (SQL m) w"
  obtain r2 s2 where e2: "tx_Exec (ExecInsert (insert_sql c) (ID m) (Description m) (SQL m) ?d)
                  (insert_effect eng c m ?d) s1 = (r2, s2)"
    by (cases "tx_Exec (ExecInsert (insert_sql c) (ID m) (Description m) (SQL m) ?d)
                  (insert_effect eng c m ?d) s1")
  from Cons.prems e1 have r1: "r1 = None"
    by (cases r1) (simp_all add: Let_def)
  from Cons.prems e1 e2 r1 have r2: "r2 = None"
    by (cases r2) (simp_all add: Let_def)
  from Cons.prems e1 e2 r1 r2 have rest: "applyLoop eng c ms s2 = (None, s')"
    by (simp add: Let_def)
  from tx_Exec_result(3) [OF e1 r1] Cons.prems(2) obtain w1 where
    w1: "statement eng (SQL m) w = Inr w1" "tx s1 = Some w1" by auto
  from tx_Exec_result(3) [OF e2 r2] w1 obtain w2 where
    w2: "insert_effect eng c m ?d w1 = Inr w2" "tx s2 = Some w2" by auto
  from Cons.IH [OF rest w2(2)] obtain w' where "tx s' = Some w'" "apply_all eng c ms w2 = Some w'"
    by blast
  with w1 w2 show ?case by simp
qed

lemma applyMigrations_committed_failure:
  assumes "applyMigrations eng c ms s = (Inl err, s')"
  shows "committed s' = committed s"
proof -
  obtain r1 s1 where l: "applyLoop eng c ms s = (r1, s1)" by (cases "applyLoop eng c ms s")
  note c1 = applyLoop_committed [OF l]
  show ?thesis
  proof (cases r1)
    case (Some e)
    with assms l c1 show ?thesis by (simp add: applyMigrations_def)
  next
    case None
    obtain r2 s2 where cm: "tx_Commit eng s1 = (r2, s2)" by (cases "tx_Commit eng s1")
    from assms l None cm have "r2 \<noteq> None" "s' = s2"
      by (auto simp: applyMigrations_def split: option.splits)
    with tx_Commit_result(3) [OF cm] c1 show ?thesis by simp
  qed
qed

lemma applyMigrations_success:
  assumes "applyMigrations eng c ms s = (Inr applied, s')" and "tx s = Some w"
  shows "applied = ms \<and> apply_all eng c ms w = Some (committed s') \<and> fault eng Commit (committed s') = None"
proof -
  obtain r1 s1 where l: "applyLoop eng c ms s = (r1, s1)" by (cases "applyLoop eng c ms s")
  from assms l have r1: "r1 = None"
    by (cases r1) (simp_all add: applyMigrations_def)
  obtain r2 s2 where cm: "tx_Commit eng s1 = (r2, s2)" by (cases "tx_Commit eng s1")
  from assms l r1 cm have r2: "r2 = None" and s': "s' = s2" and a: "applied = ms"
    by (cases r2; simp add: applyMigrations_def)+
  from applyLoop_success [OF l [unfolded r1] assms(2)] obtain w' where
    w': "tx s1 = Some w'" "apply_all eng c ms w = Some w'" by blast
  from tx_Commit_result(2) [OF cm r2] w' have "committed s2 = w'" "fault eng Commit w' = None" by auto
  with w' a s' show ?thesis by simp
qed

lemma init_result:
  assumes "init eng c s = (r, s')"
  shows "committed s' = committed s"
    and "r = None \<Longrightarrow> \<exists>w. tx s = Some w \<and> tx s' = Some (create_if_absent c w)
            \<and> fault eng (Exec (init_sql c)) w = None"
    and "calls s' = calls s @ [(Exec (init_sql c), r)]"
proof -
  note t = tx_Exec_result [OF assms [unfolded init_def]]
  show "committed s' = committed s" "calls s' = calls s @ [(Exec (init_sql c), r)]"
    using t(1,2) by simp_all
  show "\<exists>w. tx s = Some w \<and> tx s' = Some (create_if_absent c w)
            \<and> fault eng (Exec (init_sql c)) w = None" if "r = None"
    using t(3) [OF that] by (auto simp: init_effect_def split: option.splits)
qed

lemma Migrate_failure_committed:
  assumes "fst (Migrate eng c ms s) = Inl err"
  shows "committed (snd (Migrate eng c ms s)) = committed s"
proof (cases "Migrations_Valid ms")
  case (Some e)
  then show ?thesis by (simp add: Migrate_def)
next
  case None
  obtain r1 s1 where b: "db_Begin eng s = (r1, s1)" by (cases "db_Begin eng s")
  note b1 = db_Begin_result(1) [OF b]
  show ?thesis
  proof (cases r1)
    case (Some e)
    with None b b1 show ?thesis by (simp add: Migrate_def)
  next
    case r1: None
    obtain r2 s2 where i: "init eng c s1 = (r2, s2)" by (cases "init eng c s1")
    note i1 = init_result(1) [OF i]
    show ?thesis
    proof (cases r2)
      case (Some e)
      with None b r1 i i1 b1 show ?thesis by (simp add: Migrate_def)
    next
      case r2: None
      obtain r3 s3 where v: "verifyMigrations eng c ms s2 = (r3, s3)"
        by (cases "verifyMigrations eng c ms s2")
      note v1 = verifyMigrations_result(1) [OF v]
      show ?thesis
      proof (cases r3)
        case (Inl e)
        with None b r1 i r2 v v1 i1 b1 show ?thesis by (simp add: Migrate_def)
      next
        case (Inr rest)
        obtain r4 s4 where a: "applyMigrations eng c rest s3 = (r4, s4)"
          by (cases "applyMigrations eng c rest s3")
        from None b r1 i r2 v Inr a have m: "Migrate eng c ms s = (r4, tx_Rollback s4)"
          by (simp add: Migrate_def)
        with assms have "r4 = Inl err" by simp
        from applyMigrations_committed_failure [OF a [unfolded this]] m v1 i1 b1
        show ?thesis by simp
      qed
    qed
  qed
qed

lemma Migrate_success:
  assumes "fst (Migrate eng c ms s) = Inr applied"
  shows "Migrations_Valid ms = None"
    and "verifyRows eng (create_if_absent c (committed s)) 0
           (sort_key row_id (rows_of c (committed s))) ms = Inr applied"
    and "apply_all eng c applied (create_if_absent c (committed s))
           = Some (committed (snd (Migrate eng c ms s)))"
proof -
  show valid: "Migrations_Valid ms = None"
    using assms by (cases "Migrations_Valid ms") (simp_all add: Migrate_def)
  obtain r1 s1 where b: "db_Begin eng s = (r1, s1)" by (cases "db_Begin eng s")
  from assms valid b have r1: "r1 = None"
    by (cases r1) (simp_all add: Migrate_def)
  obtain r2 s2 where i: "init eng c s1 = (r2, s2)" by (cases "init eng c s1")
  from assms valid b r1 i have r2: "r2 = None"
    by (cases r2) (simp_all add: Migrate_def)
  obtain r3 s3 where v: "verifyMigrations eng c ms s2 = (r3, s3)"
    by (cases "verifyMigrations eng c ms s2")
  from assms valid b r1 i r2 v obtain rest where r3: "r3 = Inr rest"
    by (cases r3) (simp_all add: Migrate_def)
  obtain r4 s4 where a: "applyMigrations eng c rest s3 = (r4, s4)"
    by (cases "applyMigrations eng c rest s3")
  from valid b r1 i r2 v r3 a have m: "Migrate eng c ms s = (r4, tx_Rollback s4)"
    by (simp add: Migrate_def)
  with assms have r4: "r4 = Inr applied" by simp
  let ?w = "create_if_absent c (committed s)"
  from db_Begin_result(2) [OF b r1] init_result(2) [OF i r2]
  have t2: "tx s2 = Some ?w" by auto
  from verifyMigrations_result(4) [OF v r3] t2
  have vr: "verifyRows eng ?w 0 (sort_key row_id (rows_of c (committed s))) ms = Inr rest"
    by auto
  from verifyMigrations_result(2) [OF v] t2 have t3: "tx s3 = Some ?w" by simp
  from applyMigrations_success [OF a [unfolded r4] t3]
  have ap: "applied = rest" "apply_all eng c rest ?w = Some (committed s4)" by simp_all
  show "verifyRows eng ?w 0 (sort_key row_id (rows_of c (committed s))) ms = Inr applied"
    using vr ap by simp
  show "apply_all eng c applied ?w = Some (committed (snd (Migrate eng c ms s)))"
    using ap m by simp
qed

subsection \<open>The examples, evaluated\<close>

lemma example_tables [simp]:
  "tables empty_database = (\<lambda>name. None)"
  "tables database_1 (table DefaultConfig) = Some [row_1_foo]"
  "tables database_12 (table DefaultConfig) = Some [row_1_foo, row_2_bar]"
  by (simp_all add: empty_database_def database_1_def database_12_def)

lemma example_engine_fields [simp]:
  "fault example_engine cl w = None"
  "next_fault example_engine n w = None"
  "scan_fault example_engine n w = None"
  "statement example_engine = example_statement"
  "elapsed example_engine text w = 0"
  "clock example_engine w = 0"
  "fault plain_engine cl w = None"
  "next_fault plain_engine n w = None"
  "scan_fault plain_engine n w = None"
  "statement plain_engine = plain_statement"
  "elapsed plain_engine text w = 0"
  "clock plain_engine w = 0"
  by (simp_all add: example_engine_def plain_engine_def)

lemmas run_defs =
  Migrate_def db_Begin_def init_def init_effect_def tx_Exec_def tx_Query_def verifyMigrations_def
  applyMigrations_def tx_Commit_def tx_Rollback_def insert_effect_def create_if_absent_def
  record_call_def idle_def Migrations_Valid_def Migration_Valid_def row_migration_def
  example_statement_def plain_statement_def Let_def

lemma Migrate_example_div0:
  "fst (Migrate example_engine DefaultConfig [migration_1_foo, migration_2_div0] (idle empty_database))
     = Inl (MigrationFailed 2 ''2_div0.sql'' (EngineError ''division by zero''))"
  by (simp add: run_defs migration_1_foo_def migration_2_div0_def)

lemma Migrate_example_first:
  "fst (Migrate example_engine DefaultConfig [migration_1_foo] (idle empty_database))
     = Inr [migration_1_foo]"
  "committed (snd (Migrate example_engine DefaultConfig [migration_1_foo] (idle empty_database)))
     = database_1"
  by (simp_all add: run_defs migration_1_foo_def database_1_def empty_database_def row_1_foo_def)

lemma recorded_database_1: "recorded DefaultConfig database_1 = [migration_1_foo]"
  by (simp add: recorded_def rows_of_def row_migration_def row_1_foo_def migration_1_foo_def)

lemma valid_examples:
  "Migrations_Valid [migration_1_foo, migration_2_bar] = None"
  "Migrations_Valid [migration_1_foo] = None"
  by (simp_all add: Migrations_Valid_def Migration_Valid_def migration_1_foo_def migration_2_bar_def)

lemma Migrate_example_second:
  "fst (Migrate example_engine DefaultConfig [migration_1_foo, migration_2_bar] (idle database_1))
     = Inr [migration_2_bar]"
  by (simp add: run_defs migration_1_foo_def migration_2_bar_def row_1_foo_def)

lemma Migrate_example_again:
  "fst (Migrate example_engine DefaultConfig [migration_1_foo] (idle database_1)) = Inr []"
  by (simp add: run_defs migration_1_foo_def row_1_foo_def)

lemma Migrate_example_second_state:
  "committed (snd (Migrate example_engine DefaultConfig [migration_1_foo, migration_2_bar]
      (idle database_1))) = database_12"
  by (simp add: run_defs migration_1_foo_def migration_2_bar_def row_1_foo_def row_2_bar_def
      database_1_def database_12_def)

lemma Migrate_example_again_state:
  "committed (snd (Migrate example_engine DefaultConfig [migration_1_foo] (idle database_1)))
     = database_1"
  by (simp add: run_defs migration_1_foo_def row_1_foo_def database_1_def)

subsection \<open>Atomicity\<close>

text \<open>
  Claim C2. Whenever \<^verbatim>\<open>Migrate\<close> returns an error, whatever the step that failed (validation,
  \<^verbatim>\<open>Begin\<close>, the initialisation of the store, the reading of the history, the verification, a
  statement, the insertion of a row, the commit), the committed state of the database after
  the call is the one before it. Whenever it succeeds, the list it returns is the whole
  remaining suffix of the candidate sequence (the candidate without as many leading
  migrations as the history records), and the committed state is the one reached from the
  state before the call by creating the bookkeeping table if it is missing and then
  executing and recording every migration of that suffix, in order: all of the remaining
  suffix, or nothing.
\<close>

theorem Migrate_atomic:
  "(\<forall>err. fst (Migrate eng c ms s) = Inl err \<longrightarrow>
        committed (snd (Migrate eng c ms s)) = committed s)
   \<and> (\<forall>applied. fst (Migrate eng c ms s) = Inr applied \<longrightarrow>
        applied = drop (length (recorded c (committed s))) ms
        \<and> apply_all eng c (drop (length (recorded c (committed s))) ms)
              (create_if_absent c (committed s))
            = Some (committed (snd (Migrate eng c ms s))))"
proof (intro conjI allI impI)
  fix err assume "fst (Migrate eng c ms s) = Inl err"
  then show "committed (snd (Migrate eng c ms s)) = committed s"
    by (rule Migrate_failure_committed)
next
  fix applied assume ok: "fst (Migrate eng c ms s) = Inr applied"
  from verifyRows_Inr [OF Migrate_success(2) [OF ok]]
  have "applied = drop (length (sort_key row_id (rows_of c (committed s)))) ms"
    by simp
  then show suffix: "applied = drop (length (recorded c (committed s))) ms"
    by (simp add: recorded_def)
  from Migrate_success(3) [OF ok] suffix
  show "apply_all eng c (drop (length (recorded c (committed s))) ms)
            (create_if_absent c (committed s))
          = Some (committed (snd (Migrate eng c ms s)))"
    by simp
qed

theorem Migrate_atomic_witness:
  "fst (Migrate example_engine DefaultConfig [migration_1_foo, migration_2_div0] (idle empty_database))
     = Inl (MigrationFailed 2 ''2_div0.sql'' (EngineError ''division by zero''))
   \<and> committed (snd (Migrate example_engine DefaultConfig [migration_1_foo, migration_2_div0]
        (idle empty_database))) = empty_database
   \<and> fst (Migrate example_engine DefaultConfig [migration_1_foo, migration_2_bar] (idle database_1))
     = Inr [migration_2_bar]
   \<and> drop (length (recorded DefaultConfig (committed (idle database_1))))
        [migration_1_foo, migration_2_bar] = [migration_2_bar]
   \<and> apply_all example_engine DefaultConfig [migration_2_bar]
        (create_if_absent DefaultConfig database_1) = Some database_12
   \<and> committed (snd (Migrate example_engine DefaultConfig [migration_1_foo, migration_2_bar]
        (idle database_1))) = database_12"
proof -
  have c: "committed (idle database_1) = database_1"
    by (simp add: idle_def)
  note failing = Migrate_atomic [of example_engine DefaultConfig
      "[migration_1_foo, migration_2_div0]" "idle empty_database"]
  note passing = Migrate_atomic [of example_engine DefaultConfig
      "[migration_1_foo, migration_2_bar]" "idle database_1"]
  from failing Migrate_example_div0
  have 1: "committed (snd (Migrate example_engine DefaultConfig [migration_1_foo, migration_2_div0]
        (idle empty_database))) = empty_database"
    by (simp add: idle_def)
  from passing Migrate_example_second
  have 2: "apply_all example_engine DefaultConfig
        (drop (length (recorded DefaultConfig (committed (idle database_1))))
           [migration_1_foo, migration_2_bar])
        (create_if_absent DefaultConfig (committed (idle database_1)))
      = Some (committed (snd (Migrate example_engine DefaultConfig
           [migration_1_foo, migration_2_bar] (idle database_1))))"
    by blast
  from 2 have 3: "apply_all example_engine DefaultConfig [migration_2_bar]
        (create_if_absent DefaultConfig database_1)
      = Some (committed (snd (Migrate example_engine DefaultConfig
           [migration_1_foo, migration_2_bar] (idle database_1))))"
    by (simp add: c recorded_database_1)
  from Migrate_example_div0 Migrate_example_second Migrate_example_second_state 1 3
  show ?thesis by (simp add: c recorded_database_1)
qed

subsection \<open>The migrations returned\<close>

lemma set_ids_upto: "set (ids_upto k) = {1..int k}"
proof (intro set_eqI iffI)
  fix j assume "j \<in> set (ids_upto k)"
  then show "j \<in> {1..int k}" by (auto simp: ids_upto_def)
next
  fix j assume "j \<in> {1..int k}"
  then have "nat (j - 1) < k" "j = int (nat (j - 1)) + 1" by auto
  then show "j \<in> set (ids_upto k)"
    by (auto simp: ids_upto_def image_iff intro!: bexI [of _ "nat (j - 1)"])
qed

lemma ids_upto_sorted: "sorted (ids_upto k)" "distinct (ids_upto k)" "length (ids_upto k) = k"
proof -
  have "sorted_wrt (\<le>) [0..<k]" by simp
  then have "sorted_wrt (\<lambda>x y. int x + 1 \<le> int y + 1) [0..<k]"
    by (rule sorted_wrt_mono_rel [rotated]) simp
  then show "sorted (ids_upto k)" by (simp only: ids_upto_def sorted_wrt_map)
  show "distinct (ids_upto k)" by (simp add: ids_upto_def distinct_map inj_on_def)
  show "length (ids_upto k) = k" by (simp add: ids_upto_def)
qed

lemma dense_as_given_ids: "dense_as_given ms \<longleftrightarrow> map ID ms = ids_upto (length ms)"
  by (simp add: dense_as_given_def ids_upto_def)

lemma ids_upto_drop: "drop k (ids_upto n) = map (\<lambda>i. int i + 1) [k..<n]"
  by (simp add: ids_upto_def drop_map)

lemma strictly_ascending_from: "sorted_wrt (<) (map (\<lambda>i. int i + 1) [k..<n])"
proof -
  have "sorted_wrt (<) [k..<n]" by simp
  then have "sorted_wrt (\<lambda>x y. int x + 1 < int y + 1) [k..<n]"
    by (rule sorted_wrt_mono_rel [rotated]) simp
  then show ?thesis by (simp only: sorted_wrt_map)
qed

lemma valid_suffix_ids:
  assumes "Migrations_Valid C = None"
  shows "map ID (drop k C) = map (\<lambda>i. int i + 1) [k..<length C]"
proof -
  from assms have "map ID C = ids_upto (length C)"
    by (simp add: Migrations_Valid_None_iff dense_as_given_ids)
  then have "drop k (map ID C) = drop k (ids_upto (length C))" by simp
  then show ?thesis by (simp add: ids_upto_drop drop_map)
qed

text \<open>
  Claim C4. For a valid candidate sequence \<open>C\<close> and a recorded history that is the first
  \<open>k\<close> migrations of \<open>C\<close>, a successful \<^verbatim>\<open>Migrate\<close> returns exactly the migrations of \<open>C\<close>
  from position \<open>k\<close> on, whose ids are \<open>k+1, ..., |C|\<close> in ascending order, and these are the
  migrations the call applied: the state it committed is the one reached from the state
  before the call (with the bookkeeping table created if it was missing) by executing and
  recording each of them, in that order. It returns the empty list when \<open>k\<close> is the length
  of \<open>C\<close>.
\<close>

theorem Migrate_returns_suffix:
  assumes "Migrations_Valid C = None"
    and "recorded c (committed s) = take k C"
    and "k \<le> length C"
    and "fst (Migrate eng c C s) = Inr applied"
  shows "applied = drop k C
       \<and> map ID applied = map (\<lambda>i. int i + 1) [k..<length C]
       \<and> sorted_wrt (<) (map ID applied)
       \<and> (k = length C \<longrightarrow> applied = [])
       \<and> apply_all eng c (drop k C) (create_if_absent c (committed s))
           = Some (committed (snd (Migrate eng c C s)))"
proof -
  let ?rows = "sort_key row_id (rows_of c (committed s))"
  from Migrate_success(2) [OF assms(4)]
  have "verifyRows eng (create_if_absent c (committed s)) 0 ?rows C = Inr applied" .
  from verifyRows_Inr [OF this]
  have a: "applied = drop (length ?rows) C" by simp
  have "length ?rows = length (recorded c (committed s))"
    by (simp add: recorded_def)
  also have "\<dots> = k" using assms(2,3) by simp
  finally have k: "length ?rows = k" .
  from a k have 1: "applied = drop k C" by simp
  from 1 valid_suffix_ids [OF assms(1), of k]
  have 2: "map ID applied = map (\<lambda>i. int i + 1) [k..<length C]" by simp
  from 2 have 3: "sorted_wrt (<) (map ID applied)"
    by (simp only: strictly_ascending_from)
  from Migrate_success(3) [OF assms(4)] 1
  have 4: "apply_all eng c (drop k C) (create_if_absent c (committed s))
             = Some (committed (snd (Migrate eng c C s)))"
    by simp
  from 1 2 3 4 show ?thesis by simp
qed

theorem Migrate_returns_suffix_witness:
  "Migrations_Valid [migration_1_foo, migration_2_bar] = None
   \<and> recorded DefaultConfig (committed (idle database_1)) = take 1 [migration_1_foo, migration_2_bar]
   \<and> fst (Migrate example_engine DefaultConfig [migration_1_foo, migration_2_bar] (idle database_1))
       = Inr [migration_2_bar]
   \<and> [migration_2_bar] = drop 1 [migration_1_foo, migration_2_bar]
   \<and> map ID [migration_2_bar] = [2]
   \<and> apply_all example_engine DefaultConfig [migration_2_bar]
        (create_if_absent DefaultConfig database_1) = Some database_12
   \<and> committed (snd (Migrate example_engine DefaultConfig [migration_1_foo, migration_2_bar]
        (idle database_1))) = database_12
   \<and> Migrations_Valid [migration_1_foo] = None
   \<and> recorded DefaultConfig (committed (idle database_1)) = take 1 [migration_1_foo]
   \<and> fst (Migrate example_engine DefaultConfig [migration_1_foo] (idle database_1)) = Inr []
   \<and> committed (snd (Migrate example_engine DefaultConfig [migration_1_foo] (idle database_1)))
       = database_1"
proof -
  have r2: "recorded DefaultConfig (committed (idle database_1)) = take 1 [migration_1_foo, migration_2_bar]"
    and r1: "recorded DefaultConfig (committed (idle database_1)) = take 1 [migration_1_foo]"
    by (simp_all add: idle_def recorded_database_1)
  have l2: "(1::nat) \<le> length [migration_1_foo, migration_2_bar]"
    and l1: "(1::nat) \<le> length [migration_1_foo]" by simp_all
  have c: "committed (idle database_1) = database_1"
    by (simp add: idle_def)
  note t2 = Migrate_returns_suffix [OF valid_examples(1) r2 l2 Migrate_example_second]
  note t1 = Migrate_returns_suffix [OF valid_examples(2) r1 l1 Migrate_example_again]
  from t2 have a2: "apply_all example_engine DefaultConfig [migration_2_bar]
        (create_if_absent DefaultConfig database_1) = Some database_12"
    by (simp add: c Migrate_example_second_state)
  show ?thesis
    using valid_examples r1 r2 Migrate_example_second Migrate_example_again t1 t2 a2
      Migrate_example_second_state Migrate_example_again_state
    by simp
qed

end
